theory Spec2Isabelle
  imports Complex_Main
begin

section \<open>Python values and exceptions\<close>

text \<open>
  The decorator of \<^verbatim>\<open>steadycache/cache.py\<close> caches functions that take and return
  JSON-serializable values. These are the Python values that \<^verbatim>\<open>json.dumps\<close>
  accepts: \<^verbatim>\<open>None\<close>, booleans, integers, strings, lists, tuples, and dictionaries
  whose keys are strings, integers, booleans or \<^verbatim>\<open>None\<close>. A dictionary is an
  association list in insertion order, as CPython keeps it (from version 3.7 on) and as
  \<^verbatim>\<open>json.dumps\<close> walks it; no two of its keys are equal. Numbers are Python integers:
  floating-point values are left out of the model, so clock readings and durations are
  integers too. Strings are lists of code points below 256.
\<close>

datatype pykey = KStr string | KInt int | KBool bool | KNone

datatype pyval =
    PNone
  | PBool bool
  | PInt int
  | PStr string
  | PList "pyval list"
  | PTuple "pyval list"
  | PDict "(pykey \<times> pyval) list"

text \<open>
  Exceptions are values. \<open>Exception l\<close> is any exception other than the named ones
  (raised by the cached function or by the store), told apart by its label.
\<close>

datatype exn =
    TypeError
  | AttributeError
  | KeyError
  | CacheNameClashException
  | Exception string

text \<open>
  A dictionary whose keys are known to be strings: the keyword arguments of a call, and
  the dictionary \<^verbatim>\<open>getcallargs\<close> builds.
\<close>

type_synonym pydict = "(string \<times> pyval) list"

definition as_pyval :: "pydict \<Rightarrow> pyval" where
  "as_pyval d = PDict (map (\<lambda>(k, v). (KStr k, v)) d)"

text \<open>\<^verbatim>\<open>d[k] = v\<close>: an existing key keeps its place, a new key goes last.\<close>

fun dict_set :: "'k \<Rightarrow> pyval \<Rightarrow> ('k \<times> pyval) list \<Rightarrow> ('k \<times> pyval) list" where
  "dict_set k v [] = [(k, v)]"
| "dict_set k v ((k', v') # d) =
     (if k' = k then (k, v) # d else (k', v') # dict_set k v d)"

text \<open>\<^verbatim>\<open>k in d\<close>\<close>

definition dict_has :: "pydict \<Rightarrow> string \<Rightarrow> bool" where
  "dict_has d k = (k \<in> fst ` set d)"

text \<open>Truth value testing, as \<^verbatim>\<open>not x\<close> and \<^verbatim>\<open>x and y\<close> apply it.\<close>

fun truthy :: "pyval \<Rightarrow> bool" where
  "truthy PNone = False"
| "truthy (PBool b) = b"
| "truthy (PInt i) = (i \<noteq> 0)"
| "truthy (PStr s) = (s \<noteq> [])"
| "truthy (PList xs) = (xs \<noteq> [])"
| "truthy (PTuple xs) = (xs \<noteq> [])"
| "truthy (PDict d) = (d \<noteq> [])"

section \<open>\<^verbatim>\<open>json.dumps\<close>\<close>

text \<open>
  The encoder with its default settings: \<^verbatim>\<open>ensure_ascii=True\<close>, separators
  \<^verbatim>\<open>', '\<close> and \<^verbatim>\<open>': '\<close>, no key sorting. A tuple is encoded as a list is, and a
  key that is no string is turned into one.
\<close>

definition hex_digit :: "nat \<Rightarrow> char" where
  "hex_digit n = ''0123456789abcdef'' ! (n mod 16)"

text \<open>\<^verbatim>\<open>'\\u{0:04x}'.format(n)\<close> for a code point below 256.\<close>

definition u_escape :: "nat \<Rightarrow> string" where
  "u_escape n = [CHR 0x5C, CHR ''u'', CHR ''0'', CHR ''0'', hex_digit (n div 16), hex_digit n]"

text \<open>
  \<^verbatim>\<open>ESCAPE_ASCII\<close> matches the backslash, the double quote and every character
  outside the range from space to tilde; \<^verbatim>\<open>ESCAPE_DCT\<close> gives the short escapes.
\<close>

definition escape_char :: "char \<Rightarrow> string" where
  "escape_char c =
     (if c = CHR 0x5C then [CHR 0x5C, CHR 0x5C]
      else if c = CHR 0x22 then [CHR 0x5C, CHR 0x22]
      else if c = CHR 0x08 then [CHR 0x5C, CHR ''b'']
      else if c = CHR 0x0C then [CHR 0x5C, CHR ''f'']
      else if c = CHR 0x0A then [CHR 0x5C, CHR ''n'']
      else if c = CHR 0x0D then [CHR 0x5C, CHR ''r'']
      else if c = CHR 0x09 then [CHR 0x5C, CHR ''t'']
      else if (of_char c :: nat) < 0x20 \<or> 0x7E < (of_char c :: nat) then u_escape (of_char c)
      else [c])"

definition encode_basestring_ascii :: "string \<Rightarrow> string" where
  "encode_basestring_ascii s = [CHR 0x22] @ concat (map escape_char s) @ [CHR 0x22]"

fun digits :: "nat \<Rightarrow> string" where
  "digits n = (if n < 10 then [hex_digit n] else digits (n div 10) @ [hex_digit (n mod 10)])"

text \<open>\<^verbatim>\<open>int.__repr__\<close>\<close>

definition int_repr :: "int \<Rightarrow> string" where
  "int_repr i = (if i < 0 then CHR ''-'' # digits (nat (- i)) else digits (nat i))"

text \<open>\<^verbatim>\<open>sep.join(xs)\<close>\<close>

fun join :: "string \<Rightarrow> string list \<Rightarrow> string" where
  "join sep [] = []"
| "join sep [x] = x"
| "join sep (x # y # ys) = x @ sep @ join sep (y # ys)"

text \<open>The string a dictionary key is written as.\<close>

fun key_str :: "pykey \<Rightarrow> string" where
  "key_str (KStr s) = s"
| "key_str (KInt i) = int_repr i"
| "key_str (KBool b) = (if b then ''true'' else ''false'')"
| "key_str KNone = ''null''"

fun dumps :: "pyval \<Rightarrow> string"
  and dumps_list :: "pyval list \<Rightarrow> string list"
  and dumps_items :: "(pykey \<times> pyval) list \<Rightarrow> string list"
where
  "dumps PNone = ''null''"
| "dumps (PBool b) = (if b then ''true'' else ''false'')"
| "dumps (PInt i) = int_repr i"
| "dumps (PStr s) = encode_basestring_ascii s"
| "dumps (PList xs) = ''['' @ join '', '' (dumps_list xs) @ '']''"
| "dumps (PTuple xs) = ''['' @ join '', '' (dumps_list xs) @ '']''"
| "dumps (PDict d) = ''{'' @ join '', '' (dumps_items d) @ ''}''"
| "dumps_list [] = []"
| "dumps_list (x # xs) = dumps x # dumps_list xs"
| "dumps_items [] = []"
| "dumps_items ((k, v) # d) =
     (encode_basestring_ascii (key_str k) @ '': '' @ dumps v) # dumps_items d"

text \<open>
  \<^verbatim>\<open>json.loads(json.dumps(v))\<close>, the value a reader of the store gets for a value
  that was written: every tuple has become a list and every key a string. Where two
  keys are written as the same string, the decoder keeps the place of the first and the
  value of the last.
\<close>

fun json_copy :: "pyval \<Rightarrow> pyval"
  and json_copy_list :: "pyval list \<Rightarrow> pyval list"
  and json_copy_items :: "(pykey \<times> pyval) list \<Rightarrow> (pykey \<times> pyval) list \<Rightarrow> (pykey \<times> pyval) list"
where
  "json_copy PNone = PNone"
| "json_copy (PBool b) = PBool b"
| "json_copy (PInt i) = PInt i"
| "json_copy (PStr s) = PStr s"
| "json_copy (PList xs) = PList (json_copy_list xs)"
| "json_copy (PTuple xs) = PList (json_copy_list xs)"
| "json_copy (PDict d) = PDict (json_copy_items d [])"
| "json_copy_list [] = []"
| "json_copy_list (x # xs) = json_copy x # json_copy_list xs"
| "json_copy_items [] acc = acc"
| "json_copy_items ((k, v) # d) acc =
     json_copy_items d (dict_set (KStr (key_str k)) (json_copy v) acc)"

text \<open>
  The values the decoder can return: no tuple, and dictionaries with string keys, each
  key once.
\<close>

fun json_plain :: "pyval \<Rightarrow> bool"
  and json_plain_list :: "pyval list \<Rightarrow> bool"
  and json_plain_items :: "(pykey \<times> pyval) list \<Rightarrow> bool"
where
  "json_plain PNone = True"
| "json_plain (PBool b) = True"
| "json_plain (PInt i) = True"
| "json_plain (PStr s) = True"
| "json_plain (PList xs) = json_plain_list xs"
| "json_plain (PTuple xs) = False"
| "json_plain (PDict d) = (json_plain_items d \<and> distinct (map fst d))"
| "json_plain_list [] = True"
| "json_plain_list (x # xs) = (json_plain x \<and> json_plain_list xs)"
| "json_plain_items [] = True"
| "json_plain_items ((k, v) # d) =
     ((case k of KStr s \<Rightarrow> True | _ \<Rightarrow> False) \<and> json_plain v \<and> json_plain_items d)"

section \<open>\<^verbatim>\<open>inspect.getcallargs\<close>\<close>

text \<open>
  What \<^verbatim>\<open>getfullargspec\<close> reports of a function: the names of its positional
  parameters, of \<^verbatim>\<open>*args\<close> and \<^verbatim>\<open>**kwargs\<close> when it has them, the defaults of its
  last positional parameters, its keyword-only parameters and their defaults.
\<close>

record argspec =
  args :: "string list"
  varargs :: "string option"
  varkw :: "string option"
  defaults :: "pyval list"
  kwonlyargs :: "string list"
  kwonlydefaults :: pydict

text \<open>\<^verbatim>\<open>for i in range(n): arg2value[args[i]] = positional[i]\<close>\<close>

fun bind_positional :: "string list \<Rightarrow> pyval list \<Rightarrow> pydict \<Rightarrow> pydict" where
  "bind_positional (a # as) (v # vs) d = bind_positional as vs (dict_set a v d)"
| "bind_positional _ _ d = d"

text \<open>\<^verbatim>\<open>arg2value[varkw][kw] = value\<close>\<close>

fun dict_set_nested :: "string \<Rightarrow> string \<Rightarrow> pyval \<Rightarrow> pydict \<Rightarrow> pydict" where
  "dict_set_nested vk kw v [] = []"
| "dict_set_nested vk kw v ((k, x) # d) =
     (if k = vk
      then (k, (case x of PDict inner \<Rightarrow> PDict (dict_set (KStr kw) v inner) | _ \<Rightarrow> x)) # d
      else (k, x) # dict_set_nested vk kw v d)"

text \<open>The loop over \<^verbatim>\<open>named.items()\<close>, in the order the keywords were given.\<close>

fun bind_named :: "argspec \<Rightarrow> pydict \<Rightarrow> pydict \<Rightarrow> exn + pydict" where
  "bind_named sp [] d = Inr d"
| "bind_named sp ((kw, v) # named) d =
     (if kw \<notin> set (args sp @ kwonlyargs sp) then
        (case varkw sp of
           None \<Rightarrow> Inl TypeError
         | Some vk \<Rightarrow> bind_named sp named (dict_set_nested vk kw v d))
      else if dict_has d kw then Inl TypeError
      else bind_named sp named (dict_set kw v d))"

text \<open>
  \<^verbatim>\<open>for i, arg in enumerate(args[num_args - num_defaults:]):
      if arg not in arg2value: arg2value[arg] = defaults[i]\<close>
\<close>

fun bind_defaults :: "string list \<Rightarrow> pyval list \<Rightarrow> pydict \<Rightarrow> pydict" where
  "bind_defaults (a # as) (v # vs) d =
     bind_defaults as vs (if dict_has d a then d else dict_set a v d)"
| "bind_defaults _ _ d = d"

text \<open>
  The loop over the keyword-only parameters; the flag is \<^verbatim>\<open>missing\<close> having been
  incremented.
\<close>

fun bind_kwonly :: "pydict \<Rightarrow> string list \<Rightarrow> pydict \<times> bool \<Rightarrow> pydict \<times> bool" where
  "bind_kwonly kwd [] (d, missing) = (d, missing)"
| "bind_kwonly kwd (kw # kws) (d, missing) =
     (if dict_has d kw then bind_kwonly kwd kws (d, missing)
      else (case map_of kwd kw of
              Some v \<Rightarrow> bind_kwonly kwd kws (dict_set kw v d, missing)
            | None \<Rightarrow> bind_kwonly kwd kws (d, True)))"

definition getcallargs :: "argspec \<Rightarrow> pyval list \<Rightarrow> pydict \<Rightarrow> exn + pydict" where
  "getcallargs sp positional named =
     (let num_pos = length positional;
          num_args = length (args sp);
          num_defaults = length (defaults sp);
          d0 = bind_positional (args sp) positional [];
          d1 = (case varargs sp of
                  Some va \<Rightarrow> dict_set va (PTuple (drop (min num_pos num_args) positional)) d0
                | None \<Rightarrow> d0);
          d2 = (case varkw sp of Some vk \<Rightarrow> dict_set vk (PDict []) d1 | None \<Rightarrow> d1)
      in case bind_named sp named d2 of
           Inl e \<Rightarrow> Inl e
         | Inr d3 \<Rightarrow>
             if num_args < num_pos \<and> varargs sp = None then Inl TypeError
             else if num_pos < num_args
                     \<and> (\<exists>a \<in> set (take (num_args - num_defaults) (args sp)). \<not> dict_has d3 a)
             then Inl TypeError
             else
               (let d4 = (if num_pos < num_args
                          then bind_defaults (drop (num_args - num_defaults) (args sp))
                                 (defaults sp) d3
                          else d3)
                in case bind_kwonly (kwonlydefaults sp) (kwonlyargs sp) (d4, False) of
                     (d5, missing) \<Rightarrow> if missing then Inl TypeError else Inr d5))"

section \<open>The cached function and its key\<close>

text \<open>
  A function to cache: its \<^verbatim>\<open>__module__\<close>, its \<^verbatim>\<open>__name__\<close>, its signature and
  its body. The body runs on the clock and on a world of its own (\<open>'w\<close>: whatever the
  function reads and changes), takes its time, and returns a value or raises.
\<close>

record 'w func =
  f_module :: string
  f_name :: string
  f_spec :: argspec
  f_body :: "pyval list \<Rightarrow> pydict \<Rightarrow> int \<times> 'w \<Rightarrow> (exn + pyval) \<times> int \<times> 'w"

text \<open>
  \<^verbatim>\<open>mangle(fname, f, args, kwargs)\<close>. Its three \<^verbatim>\<open>print\<close> calls write to standard
  output and are left out; the sorted list exists only inside the third of them. The
  returned key encodes the dictionary of \<^verbatim>\<open>getcallargs\<close> as it is.
\<close>

definition mangle :: "string \<Rightarrow> 'w func \<Rightarrow> pyval list \<Rightarrow> pydict \<Rightarrow> exn + string" where
  "mangle fname f positional named =
     (case getcallargs (f_spec f) positional named of
        Inl e \<Rightarrow> Inl e
      | Inr d \<Rightarrow> Inr (''@'' @ fname @ ''_'' @ dumps (as_pyval d)))"

section \<open>The store, the clock and the world\<close>

text \<open>
  The store holds byte strings, and all the wrapper does with a stored string is to
  decode it with \<^verbatim>\<open>json.loads\<close>. A stored string is modelled by what
  \<^verbatim>\<open>json.loads\<close> makes of it: \<open>Undecodable\<close> when it raises, \<open>Encoded v\<close> when it
  returns \<open>v\<close>. The string \<^verbatim>\<open>json.dumps(v)\<close> that \<^verbatim>\<open>update_cache\<close> stores is
  \<open>Encoded (json_copy v)\<close>.
\<close>

datatype stored = Undecodable | Encoded pyval

text \<open>
  The arguments of \<^verbatim>\<open>cache_store.lock(name, timeout=, blocking_timeout=, thread_local=)\<close>.
  The lock object it returns is known by them. \<open>blocking_timeout\<close> is in seconds.
\<close>

record lock_args =
  lock_name :: string
  timeout :: int
  blocking_timeout :: rat
  thread_local :: bool

text \<open>What a call does to the store, the locks, the cached function and the threads.\<close>

datatype event =
    EGet string
  | ESet string stored
  | ELock lock_args
  | EAcquire string bool
  | ERelease string
  | ECall "pyval list" pydict
  | EThread string "pyval list" pydict

text \<open>
  The state a call runs in: the contents of the store (\<open>kv\<close>), the names of the locks
  that are held by anyone (\<open>held\<close>), the exception \<^verbatim>\<open>cache_store.get\<close> raises when the
  store fails (\<open>get_fault\<close>), the exception \<^verbatim>\<open>Thread.start\<close> raises when no thread
  can be started (\<open>thread_fault\<close>), the clock \<^verbatim>\<open>time.time()\<close> reads, the world of
  the cached function, and the log of events so far.
\<close>

record 'w state =
  kv :: "string \<rightharpoonup> stored"
  held :: "string set"
  get_fault :: "exn option"
  thread_fault :: "exn option"
  clock :: int
  world :: 'w
  events :: "event list"

definition log :: "event \<Rightarrow> 'w state \<Rightarrow> 'w state" where
  "log e s = s\<lparr>events := events s @ [e]\<rparr>"

text \<open>\<^verbatim>\<open>cache_store.get(key)\<close>: \<^verbatim>\<open>None\<close> for a key that is not there.\<close>

definition store_get :: "string \<Rightarrow> 'w state \<Rightarrow> (exn + stored option) \<times> 'w state" where
  "store_get key s =
     (case get_fault s of
        Some e \<Rightarrow> (Inl e, log (EGet key) s)
      | None \<Rightarrow> (Inr (kv s key), log (EGet key) s))"

text \<open>\<^verbatim>\<open>cache_store.set(key, value)\<close>\<close>

definition store_set :: "string \<Rightarrow> stored \<Rightarrow> 'w state \<Rightarrow> 'w state" where
  "store_set key v s = log (ESet key v) (s\<lparr>kv := (kv s)(key \<mapsto> v)\<rparr>)"

text \<open>
  \<^verbatim>\<open>lock.acquire()\<close> gives up after the blocking timeout: it returns \<^verbatim>\<open>False\<close> when
  the lock is still held by then.
\<close>

definition acquire :: "lock_args \<Rightarrow> 'w state \<Rightarrow> bool \<times> 'w state" where
  "acquire lk s =
     (if lock_name lk \<in> held s then (False, log (EAcquire (lock_name lk) False) s)
      else (True, log (EAcquire (lock_name lk) True)
                    (s\<lparr>held := insert (lock_name lk) (held s)\<rparr>)))"

text \<open>\<^verbatim>\<open>lock.release()\<close>\<close>

definition release :: "lock_args \<Rightarrow> 'w state \<Rightarrow> 'w state" where
  "release lk s = log (ERelease (lock_name lk)) (s\<lparr>held := held s - {lock_name lk}\<rparr>)"

text \<open>\<^verbatim>\<open>f(*args, **kwargs)\<close>\<close>

definition call :: "'w func \<Rightarrow> pyval list \<Rightarrow> pydict \<Rightarrow> 'w state \<Rightarrow> (exn + pyval) \<times> 'w state" where
  "call f positional named s =
     (case f_body f positional named (clock s, world s) of
        (r, t, w) \<Rightarrow> (r, log (ECall positional named) (s\<lparr>clock := t, world := w\<rparr>)))"

section \<open>Operations on the decoded entry\<close>

text \<open>
  \<^verbatim>\<open>try: cached_result = json.loads(cached_result)
  except: cached_result = {}\<close>
  \<^verbatim>\<open>json.loads(None)\<close> raises.
\<close>

definition loads_or_empty :: "stored option \<Rightarrow> pyval" where
  "loads_or_empty got = (case got of Some (Encoded v) \<Rightarrow> v | _ \<Rightarrow> PDict [])"

text \<open>\<^verbatim>\<open>x.get(k, default)\<close>: only a dictionary has the attribute.\<close>

definition py_get :: "pyval \<Rightarrow> string \<Rightarrow> pyval \<Rightarrow> exn + pyval" where
  "py_get x k dflt =
     (case x of
        PDict d \<Rightarrow> Inr (case map_of d (KStr k) of Some v \<Rightarrow> v | None \<Rightarrow> dflt)
      | _ \<Rightarrow> Inl AttributeError)"

text \<open>\<^verbatim>\<open>x[k]\<close> for a string \<open>k\<close>\<close>

definition subscript :: "pyval \<Rightarrow> string \<Rightarrow> exn + pyval" where
  "subscript x k =
     (case x of
        PDict d \<Rightarrow> (case map_of d (KStr k) of Some v \<Rightarrow> Inr v | None \<Rightarrow> Inl KeyError)
      | _ \<Rightarrow> Inl TypeError)"

text \<open>\<^verbatim>\<open>now - v\<close>: a boolean is an integer; anything else is no number.\<close>

definition py_sub :: "int \<Rightarrow> pyval \<Rightarrow> exn + int" where
  "py_sub now v =
     (case v of
        PInt i \<Rightarrow> Inr (now - i)
      | PBool b \<Rightarrow> Inr (now - (if b then 1 else 0))
      | _ \<Rightarrow> Inl TypeError)"

text \<open>
  \<^verbatim>\<open>age = now - cached_result.get('timestamp', 0) if cached_result else now\<close>
\<close>

definition age_of :: "int \<Rightarrow> pyval \<Rightarrow> exn + int" where
  "age_of now cached_result =
     (if truthy cached_result
      then (case py_get cached_result ''timestamp'' (PInt 0) of
              Inl e \<Rightarrow> Inl e
            | Inr t \<Rightarrow> py_sub now t)
      else Inr now)"

section \<open>The decorator\<close>

text \<open>The parameters of \<^verbatim>\<open>cache\<close> as \<^verbatim>\<open>decorate\<close> and \<^verbatim>\<open>wrapped\<close> see them.\<close>

record config =
  expires :: int
  prefix :: string
  bg_caching :: bool
  stale :: int

text \<open>
  \<^verbatim>\<open>if not stale: stale = 2 * expires\<close>.
  The argument is \<^verbatim>\<open>None\<close> or a number.
\<close>

definition resolve_stale :: "int \<Rightarrow> int option \<Rightarrow> int" where
  "resolve_stale expires_arg stale_arg =
     (case stale_arg of
        None \<Rightarrow> 2 * expires_arg
      | Some n \<Rightarrow> if n = 0 then 2 * expires_arg else n)"

text \<open>
  \<^verbatim>\<open>create_cache(cache_store, prefix="")\<close> returns
  \<^verbatim>\<open>cache(expires=5, prefix=prefix, bg_caching=False, stale=None)\<close>; an argument that
  is not given is \<open>None\<close> here. The store is the one of the state.
\<close>

definition cache :: "string \<Rightarrow> int option \<Rightarrow> string option \<Rightarrow> bool option \<Rightarrow> int option \<Rightarrow> config" where
  "cache outer_prefix expires_arg prefix_arg bg_arg stale_arg =
     (let e = (case expires_arg of None \<Rightarrow> 5 | Some n \<Rightarrow> n)
      in \<lparr> expires = e,
           prefix = (case prefix_arg of None \<Rightarrow> outer_prefix | Some p \<Rightarrow> p),
           bg_caching = (case bg_arg of None \<Rightarrow> False | Some b \<Rightarrow> b),
           stale = resolve_stale e stale_arg \<rparr>)"

definition create_cache :: "string option \<Rightarrow> int option \<Rightarrow> string option \<Rightarrow> bool option \<Rightarrow> int option \<Rightarrow> config" where
  "create_cache prefix_arg = cache (case prefix_arg of None \<Rightarrow> [] | Some p \<Rightarrow> p)"

text \<open>\<^verbatim>\<open>fname = prefix + "_" + f.__module__ + "_" + f.__name__\<close>\<close>

definition derived_name :: "config \<Rightarrow> 'w func \<Rightarrow> string" where
  "derived_name c f = prefix c @ ''_'' @ f_module f @ ''_'' @ f_name f"

text \<open>
  \<^verbatim>\<open>cache_store.lock('__lock_' + fname, timeout=expires, blocking_timeout=0.1,
  thread_local=False)\<close>
\<close>

definition lock_for :: "config \<Rightarrow> string \<Rightarrow> lock_args" where
  "lock_for c fname =
     \<lparr> lock_name = ''__lock_'' @ fname, timeout = expires c,
       blocking_timeout = 1 / 10, thread_local = False \<rparr>"

text \<open>
  \<^verbatim>\<open>def update_cache(f, lock, *args, **kwargs)\<close>, called as
  \<^verbatim>\<open>update_cache(f, lock, *args, **kwargs)\<close> with the arguments of the caller. Its
  first two parameters are bound by position, so a keyword argument named \<^verbatim>\<open>f\<close> or
  \<^verbatim>\<open>lock\<close> gives one of them a second value: the call raises \<^verbatim>\<open>TypeError\<close> before
  the body is entered, and nothing of the body happens. In the body, the \<^verbatim>\<open>finally\<close>
  clause releases the lock however the \<^verbatim>\<open>try\<close> block ends. The timestamp is the clock
  after \<open>f\<close> has returned.
\<close>

definition update_cache ::
  "string \<Rightarrow> 'w func \<Rightarrow> lock_args \<Rightarrow> pyval list \<Rightarrow> pydict \<Rightarrow> 'w state \<Rightarrow> (exn + pyval) \<times> 'w state" where
  "update_cache fname f lk positional named s =
     (if dict_has named ''f'' \<or> dict_has named ''lock'' then (Inl TypeError, s)
      else
        (case call f positional named s of
           (Inl e, s1) \<Rightarrow> (Inl e, release lk s1)
         | (Inr result, s1) \<Rightarrow>
             (case mangle fname f positional named of
                Inl e \<Rightarrow> (Inl e, release lk s1)
              | Inr key \<Rightarrow>
                  (Inr result,
                   release lk
                     (store_set key
                        (Encoded (json_copy
                           (PDict [(KStr ''timestamp'', PInt (clock s1)),
                                   (KStr ''result'', result)])))
                        s1)))))"

text \<open>
  The thread that \<^verbatim>\<open>wrapped\<close> starts, when it runs: it makes the same call of
  \<^verbatim>\<open>update_cache\<close>, and what the call returns or raises is dropped.
\<close>

definition thread_run ::
  "string \<Rightarrow> 'w func \<Rightarrow> lock_args \<Rightarrow> pyval list \<Rightarrow> pydict \<Rightarrow> 'w state \<Rightarrow> 'w state" where
  "thread_run fname f lk positional named s = snd (update_cache fname f lk positional named s)"

text \<open>
  \<^verbatim>\<open>bg_caching and cached_result and now - cached_result['timestamp'] < stale\<close>
\<close>

definition still_valid :: "config \<Rightarrow> int \<Rightarrow> pyval \<Rightarrow> exn + bool" where
  "still_valid c now cached_result =
     (if bg_caching c \<and> truthy cached_result
      then (case subscript cached_result ''timestamp'' of
              Inl e \<Rightarrow> Inl e
            | Inr t \<Rightarrow> (case py_sub now t of Inl e \<Rightarrow> Inl e | Inr a \<Rightarrow> Inr (a < stale c)))
      else Inr False)"

text \<open>
  \<^verbatim>\<open>wrapped(*args, **kwargs)\<close>, the function \<^verbatim>\<open>decorate\<close> returns. A thread that is
  started runs \<^verbatim>\<open>update_cache\<close> later, on the state of that time
  (\<open>thread_run\<close>): the call that starts it only logs it and leaves the lock held.
\<close>

definition wrapped ::
  "config \<Rightarrow> string \<Rightarrow> 'w func \<Rightarrow> pyval list \<Rightarrow> pydict \<Rightarrow> 'w state \<Rightarrow> (exn + pyval) \<times> 'w state" where
  "wrapped c fname f positional named s =
     (case mangle fname f positional named of
        Inl e \<Rightarrow> (Inl e, s)
      | Inr key \<Rightarrow>
     (case store_get key s of
        (Inl e, s1) \<Rightarrow> (Inl e, s1)
      | (Inr got, s1) \<Rightarrow>
     (let cached_result = loads_or_empty got;
          now = clock s1
      in case age_of now cached_result of
           Inl e \<Rightarrow> (Inl e, s1)
         | Inr age \<Rightarrow>
             if \<not> truthy cached_result \<or> expires c < age then
               (let lk = lock_for c fname
                in case acquire lk (log (ELock lk) s1) of
                     (True, s2) \<Rightarrow>
                       (case still_valid c now cached_result of
                          Inl e \<Rightarrow> (Inl e, s2)
                        | Inr True \<Rightarrow>
                            (case thread_fault s2 of
                               Some e \<Rightarrow> (Inl e, release lk s2)
                             | None \<Rightarrow>
                                 (subscript cached_result ''result'',
                                  log (EThread (lock_name lk) positional named) s2))
                        | Inr False \<Rightarrow> update_cache fname f lk positional named s2)
                   | (False, s2) \<Rightarrow>
                       if \<not> bg_caching c \<or> \<not> truthy cached_result
                       then call f positional named s2
                       else (subscript cached_result ''result'', s2))
             else (subscript cached_result ''result'', s1))))"

text \<open>
  The global dictionary \<^verbatim>\<open>decorated\<close>, empty when the module is loaded, and
  \<^verbatim>\<open>decorate(f)\<close>, which returns the wrapped function or raises.
\<close>

type_synonym registry = "string \<rightharpoonup> bool"

definition decorated_init :: registry where
  "decorated_init = Map.empty"

definition decorate ::
  "config \<Rightarrow> 'w func \<Rightarrow> registry
     \<Rightarrow> (exn + (pyval list \<Rightarrow> pydict \<Rightarrow> 'w state \<Rightarrow> (exn + pyval) \<times> 'w state)) \<times> registry" where
  "decorate c f decorated =
     (let fname = derived_name c f
      in if (case decorated fname of Some b \<Rightarrow> b | None \<Rightarrow> False)
         then (Inl CacheNameClashException, decorated)
         else (Inr (wrapped c fname f), decorated(fname \<mapsto> True)))"

section \<open>Programs that use the decorator\<close>

text \<open>
  A module applies the decorator to its functions one after the other, each
  application with its own parameters. The outcomes are kept in that order.
\<close>

fun decorate_each ::
  "(config \<times> 'w func) list \<Rightarrow> registry
     \<Rightarrow> (exn + (pyval list \<Rightarrow> pydict \<Rightarrow> 'w state \<Rightarrow> (exn + pyval) \<times> 'w state)) list \<times> registry" where
  "decorate_each [] decorated = ([], decorated)"
| "decorate_each ((c, f) # rest) decorated =
     (case decorate c f decorated of
        (r, decorated1) \<Rightarrow>
          (case decorate_each rest decorated1 of
             (rs, decorated2) \<Rightarrow> (r # rs, decorated2)))"

text \<open>The derived names of the applications that returned a wrapped function.\<close>

fun registered :: "(config \<times> 'w func) list \<Rightarrow> (exn + 'a) list \<Rightarrow> string list" where
  "registered ((c, f) # rest) (r # rs) =
     (case r of
        Inl e \<Rightarrow> registered rest rs
      | Inr w \<Rightarrow> derived_name c f # registered rest rs)"
| "registered _ _ = []"

text \<open>
  Calls of one wrapped function, one after the other, each made when the clock reads
  the next of the given times.
\<close>

fun call_at_each ::
  "('w state \<Rightarrow> (exn + pyval) \<times> 'w state) \<Rightarrow> int list \<Rightarrow> 'w state
     \<Rightarrow> (exn + pyval) list \<times> 'w state" where
  "call_at_each w [] s = ([], s)"
| "call_at_each w (t # ts) s =
     (case w (s\<lparr>clock := t\<rparr>) of
        (r, s1) \<Rightarrow> (case call_at_each w ts s1 of (rs, s2) \<Rightarrow> (r # rs, s2)))"

text \<open>How often the cached function was invoked, and which locks were asked for.\<close>

fun invocations :: "event list \<Rightarrow> nat" where
  "invocations [] = 0"
| "invocations (ECall a k # es) = Suc (invocations es)"
| "invocations (e # es) = invocations es"

fun lock_requests :: "event list \<Rightarrow> lock_args list" where
  "lock_requests [] = []"
| "lock_requests (ELock lk # es) = lk # lock_requests es"
| "lock_requests (e # es) = lock_requests es"

fun writes :: "event list \<Rightarrow> (string \<times> stored) list" where
  "writes [] = []"
| "writes (ESet key v # es) = (key, v) # writes es"
| "writes (e # es) = writes es"

section \<open>Functions of the test suite\<close>

text \<open>
  \<^verbatim>\<open>def foo(): self.count_foo += 1; return self.count_foo\<close> of
  \<^verbatim>\<open>test_cache_caches\<close>: the world is the counter.
\<close>

definition foo :: "nat func" where
  "foo = \<lparr> f_module = ''test_cache'', f_name = ''foo'',
           f_spec = \<lparr> args = [], varargs = None, varkw = None, defaults = [],
                      kwonlyargs = [], kwonlydefaults = [] \<rparr>,
           f_body = (\<lambda>positional named (t, n). (Inr (PInt (int n + 1)), t, n + 1)) \<rparr>"

text \<open>
  \<^verbatim>\<open>def baw(a=1, b=1)\<close> of \<^verbatim>\<open>test_kwargs_caching\<close>. The string it returns is
  made of its two arguments and the time; the model returns these, unformatted.
\<close>

definition baw_spec :: argspec where
  "baw_spec = \<lparr> args = [''a'', ''b''], varargs = None, varkw = None,
                 defaults = [PInt 1, PInt 1], kwonlyargs = [], kwonlydefaults = [] \<rparr>"

definition baw :: "nat func" where
  "baw = \<lparr> f_module = ''test_cache'', f_name = ''baw'', f_spec = baw_spec,
           f_body = (\<lambda>positional named (t, n).
              (case getcallargs baw_spec positional named of
                 Inl e \<Rightarrow> (Inl e, t, n)
               | Inr d \<Rightarrow> (Inr (PList [as_pyval d, PInt t]), t, n))) \<rparr>"

text \<open>A store with nothing in it and no lock held, at time 1000.\<close>

definition fresh_state :: "nat state" where
  "fresh_state =
     \<lparr> kv = Map.empty, held = {}, get_fault = None, thread_fault = None,
       clock = 1000, world = 0, events = [] \<rparr>"

text \<open>
  \<^verbatim>\<open>self.cache = cache.create_cache(self.mock_redis)\<close> of \<^verbatim>\<open>setUp\<close>, and the
  decorators \<^verbatim>\<open>@self.cache(prefix="test_cache_caches")\<close>,
  \<^verbatim>\<open>@self.cache(prefix="test_kwargs_caching")\<close> and, with whole seconds for the
  tenths of \<^verbatim>\<open>test_stale\<close>,
  \<^verbatim>\<open>@self.cache(prefix="test_stale", expires=1, bg_caching=True, stale=2)\<close>.
\<close>

definition test_cache :: "int option \<Rightarrow> string option \<Rightarrow> bool option \<Rightarrow> int option \<Rightarrow> config" where
  "test_cache = create_cache None"

definition caches_config :: config where
  "caches_config = test_cache None (Some ''test_cache_caches'') None None"

definition kwargs_config :: config where
  "kwargs_config = test_cache None (Some ''test_kwargs_caching'') None None"

definition stale_config :: config where
  "stale_config = test_cache (Some 1) (Some ''test_stale'') (Some True) (Some 2)"

text \<open>
  \<^verbatim>\<open>def pair(): return (1, 2)\<close>, a function that returns a tuple, and
  \<^verbatim>\<open>def g(f=1): return f\<close>, a function with a parameter named \<^verbatim>\<open>f\<close>.
\<close>

definition pair :: "nat func" where
  "pair = \<lparr> f_module = ''test_cache'', f_name = ''pair'',
           f_spec = \<lparr> args = [], varargs = None, varkw = None, defaults = [],
                      kwonlyargs = [], kwonlydefaults = [] \<rparr>,
           f_body = (\<lambda>positional named (t, n). (Inr (PTuple [PInt 1, PInt 2]), t, n)) \<rparr>"

definition g_spec :: argspec where
  "g_spec = \<lparr> args = [''f''], varargs = None, varkw = None, defaults = [PInt 1],
               kwonlyargs = [], kwonlydefaults = [] \<rparr>"

definition g :: "nat func" where
  "g = \<lparr> f_module = ''test_cache'', f_name = ''g'', f_spec = g_spec,
         f_body = (\<lambda>positional named (t, n).
            (case getcallargs g_spec positional named of
               Inl e \<Rightarrow> (Inl e, t, n)
             | Inr d \<Rightarrow> (case map_of d ''f'' of
                          Some v \<Rightarrow> (Inr v, t, n)
                        | None \<Rightarrow> (Inl TypeError, t, n)))) \<rparr>"

text \<open>A function that raises, after one second.\<close>

definition failing :: "nat func" where
  "failing = \<lparr> f_module = ''test_cache'', f_name = ''failing'',
           f_spec = \<lparr> args = [], varargs = None, varkw = None, defaults = [],
                      kwonlyargs = [], kwonlydefaults = [] \<rparr>,
           f_body = (\<lambda>positional named (t, n). (Inl (Exception ''boom''), t + 1, n)) \<rparr>"

text \<open>
  States of the store at time 1000: an entry of \<^verbatim>\<open>foo()\<close> written at time 990 while
  another caller holds the lock of \<open>foo\<close>; an entry of \<^verbatim>\<open>foo()\<close> written at time 996;
  the bytes \<^verbatim>\<open>5\<close> under the key of
  \<^verbatim>\<open>foo()\<close>; a store whose \<^verbatim>\<open>get\<close> raises; no entry while another caller holds the
  lock of \<open>foo\<close>.
\<close>

definition stale_entry_state :: "nat state" where
  "stale_entry_state =
     fresh_state\<lparr>kv := [''@test_stale_test_cache_foo_{}'' \<mapsto>
                          Encoded (PDict [(KStr ''timestamp'', PInt 990),
                                          (KStr ''result'', PStr ''old'')])],
                 held := {''__lock_test_stale_test_cache_foo''}\<rparr>"

definition fresh_entry_state :: "nat state" where
  "fresh_entry_state =
     fresh_state\<lparr>kv := [''@test_cache_caches_test_cache_foo_{}'' \<mapsto>
                          Encoded (PDict [(KStr ''timestamp'', PInt 996),
                                          (KStr ''result'', PStr ''kept'')])]\<rparr>"

definition foreign_entry_state :: "nat state" where
  "foreign_entry_state =
     fresh_state\<lparr>kv := [''@test_cache_caches_test_cache_foo_{}'' \<mapsto> Encoded (PInt 5)]\<rparr>"

definition unreachable_state :: "nat state" where
  "unreachable_state = fresh_state\<lparr>get_fault := Some (Exception ''ConnectionError'')\<rparr>"

definition contended_state :: "nat state" where
  "contended_state = fresh_state\<lparr>held := {''__lock_test_cache_caches_test_cache_foo''}\<rparr>"

text \<open>Every name in \<^verbatim>\<open>decorated\<close> is there with the value \<^verbatim>\<open>True\<close>.\<close>

definition all_true :: "registry \<Rightarrow> bool" where
  "all_true d = (\<forall>k b. d k = Some b \<longrightarrow> b)"

section \<open>The round trip through the store\<close>

lemma dict_set_new: "k \<notin> fst ` set d \<Longrightarrow> dict_set k v d = d @ [(k, v)]"
  by (induction d) auto

lemma json_copy_plain_all:
  "(json_plain v \<longrightarrow> json_copy v = v)"
  "(json_plain_list xs \<longrightarrow> json_copy_list xs = xs)"
  "(json_plain_items d \<and> distinct (map fst (acc @ d)) \<longrightarrow> json_copy_items d acc = acc @ d)"
proof (induction v and xs and d acc rule: json_copy_json_copy_list_json_copy_items.induct)
  case (11 k v d acc)
  show ?case
  proof (intro impI)
    assume h: "json_plain_items ((k, v) # d) \<and> distinct (map fst (acc @ (k, v) # d))"
    then obtain s where k: "k = KStr s" by (cases k) auto
    have v: "json_copy v = v" using h "11.IH"(1) by simp
    have new: "KStr s \<notin> fst ` set acc" using h k by auto
    have step: "dict_set (KStr (key_str k)) (json_copy v) acc = acc @ [(k, v)]"
      using dict_set_new[OF new] k v by simp
    have "json_copy_items d (acc @ [(k, v)]) = (acc @ [(k, v)]) @ d"
      using "11.IH"(2) h step by simp
    then show "json_copy_items ((k, v) # d) acc = acc @ (k, v) # d"
      using step by simp
  qed
qed simp_all

lemma json_copy_plain: "json_plain v \<Longrightarrow> json_copy v = v"
  using json_copy_plain_all(1) by blast

section \<open>The paths of a call\<close>

lemmas store_defs = log_def store_get_def store_set_def acquire_def release_def call_def

lemmas dumps_defs = encode_basestring_ascii_def escape_char_def int_repr_def hex_digit_def

lemmas bind_defs = mangle_def getcallargs_def dict_has_def as_pyval_def

lemmas config_defs = caches_config_def kwargs_config_def stale_config_def test_cache_def
  create_cache_def cache_def resolve_stale_def derived_name_def

lemmas entry_defs = loads_or_empty_def age_of_def py_get_def py_sub_def subscript_def
  still_valid_def

lemmas state_defs = fresh_state_def stale_entry_state_def fresh_entry_state_def
  foreign_entry_state_def unreachable_state_def contended_state_def

lemma lock_requests_append: "lock_requests (xs @ ys) = lock_requests xs @ lock_requests ys"
  by (induction xs rule: lock_requests.induct) simp_all

lemma invocations_append: "invocations (xs @ ys) = invocations xs + invocations ys"
  by (induction xs rule: invocations.induct) simp_all

lemma writes_append: "writes (xs @ ys) = writes xs @ writes ys"
  by (induction xs rule: writes.induct) simp_all

lemma invocations_gets: "invocations (replicate n (EGet key)) = 0"
  by (induction n) simp_all

lemma fresh_hit:
  assumes "mangle fname f a k = Inr key" "get_fault s = None"
    "kv s key = Some (Encoded (PDict d))" "map_of d (KStr ''timestamp'') = Some (PInt t)"
    "map_of d (KStr ''result'') = Some r" "clock s - t \<le> expires c"
  shows "wrapped c fname f a k s = (Inr r, log (EGet key) s)"
proof -
  have ne: "d \<noteq> []" using assms(4) by auto
  show ?thesis
    using assms ne
    by (simp add: wrapped_def store_get_def loads_or_empty_def age_of_def py_get_def py_sub_def
        subscript_def log_def)
qed

lemma fresh_calls:
  assumes "mangle fname f a k = Inr key" "get_fault s = None"
    "kv s key = Some (Encoded (PDict d))" "map_of d (KStr ''timestamp'') = Some (PInt t)"
    "map_of d (KStr ''result'') = Some r" "\<forall>u \<in> set ts. u - t \<le> expires c"
  shows "call_at_each (wrapped c fname f a k) ts s =
     (replicate (length ts) (Inr r),
      s\<lparr>clock := last (clock s # ts),
        events := events s @ replicate (length ts) (EGet key)\<rparr>)"
  using assms(2,3,6)
proof (induction ts arbitrary: s)
  case Nil
  then show ?case by simp
next
  case (Cons u ts)
  let ?s = "s\<lparr>clock := u\<rparr>"
  have hit: "wrapped c fname f a k ?s = (Inr r, log (EGet key) ?s)"
    using fresh_hit[OF assms(1), of ?s d t r c] Cons.prems assms(4,5) by simp
  have IH: "call_at_each (wrapped c fname f a k) ts (log (EGet key) ?s) =
     (replicate (length ts) (Inr r),
      (log (EGet key) ?s)\<lparr>clock := last (clock (log (EGet key) ?s) # ts),
        events := events (log (EGet key) ?s) @ replicate (length ts) (EGet key)\<rparr>)"
    using Cons.IH[of "log (EGet key) ?s"] Cons.prems by (simp add: log_def)
  show ?case
    using hit IH by (simp add: log_def replicate_app_Cons_same)
qed

lemma contended_live:
  assumes "mangle fname f a k = Inr key" "get_fault s = None"
    "age_of (clock s) (loads_or_empty (kv s key)) = Inr age"
    "\<not> truthy (loads_or_empty (kv s key)) \<or> expires c < age"
    "''__lock_'' @ fname \<in> held s"
    "\<not> bg_caching c \<or> \<not> truthy (loads_or_empty (kv s key))"
    "f_body f a k (clock s, world s) = (r, t, w)"
  shows "wrapped c fname f a k s =
     (r, s\<lparr>clock := t, world := w,
           events := events s @ [EGet key, ELock (lock_for c fname),
                                 EAcquire (''__lock_'' @ fname) False, ECall a k]\<rparr>)"
  using assms
  by (auto simp add: wrapped_def store_defs lock_for_def Let_def)

lemma sync_refresh:
  assumes "mangle fname f a k = Inr key" "get_fault s = None"
    "age_of (clock s) (loads_or_empty (kv s key)) = Inr age"
    "\<not> truthy (loads_or_empty (kv s key)) \<or> expires c < age"
    "''__lock_'' @ fname \<notin> held s"
    "still_valid c (clock s) (loads_or_empty (kv s key)) = Inr False"
    "\<not> dict_has k ''f''" "\<not> dict_has k ''lock''"
    "f_body f a k (clock s, world s) = (r, t, w)"
  shows "wrapped c fname f a k s =
     (case r of
        Inr v \<Rightarrow>
          (Inr v, s\<lparr>kv := (kv s)(key \<mapsto> Encoded (PDict [(KStr ''timestamp'', PInt t),
                                                         (KStr ''result'', json_copy v)])),
                    clock := t, world := w,
                    events := events s @ [EGet key, ELock (lock_for c fname),
                       EAcquire (''__lock_'' @ fname) True, ECall a k,
                       ESet key (Encoded (PDict [(KStr ''timestamp'', PInt t),
                                                 (KStr ''result'', json_copy v)])),
                       ERelease (''__lock_'' @ fname)]\<rparr>)
      | Inl e \<Rightarrow>
          (Inl e, s\<lparr>clock := t, world := w,
                    events := events s @ [EGet key, ELock (lock_for c fname),
                       EAcquire (''__lock_'' @ fname) True, ECall a k,
                       ERelease (''__lock_'' @ fname)]\<rparr>))"
  using assms
  by (auto simp add: wrapped_def update_cache_def store_defs lock_for_def Let_def split: sum.splits)

lemma keyword_clash:
  assumes "mangle fname f a k = Inr key" "get_fault s = None"
    "age_of (clock s) (loads_or_empty (kv s key)) = Inr age"
    "\<not> truthy (loads_or_empty (kv s key)) \<or> expires c < age"
    "''__lock_'' @ fname \<notin> held s"
    "still_valid c (clock s) (loads_or_empty (kv s key)) = Inr False"
    "dict_has k ''f'' \<or> dict_has k ''lock''"
  shows "wrapped c fname f a k s =
     (Inl TypeError,
      s\<lparr>held := insert (''__lock_'' @ fname) (held s),
        events := events s @ [EGet key, ELock (lock_for c fname),
                              EAcquire (''__lock_'' @ fname) True]\<rparr>)"
  using assms
  by (auto simp add: wrapped_def update_cache_def store_defs lock_for_def Let_def)

lemma update_cache_locks:
  "lock_requests (events (snd (update_cache fname f lk a k s))) = lock_requests (events s)"
  by (simp add: update_cache_def store_defs lock_requests_append split: prod.splits sum.splits)

lemma call_locks:
  "lock_requests (events (snd (call f a k s))) = lock_requests (events s)"
  by (simp add: store_defs lock_requests_append split: prod.splits)

lemma reaches_lock:
  assumes "mangle fname f a k = Inr key" "get_fault s = None"
    "age_of (clock s) (loads_or_empty (kv s key)) = Inr age"
    "\<not> truthy (loads_or_empty (kv s key)) \<or> expires c < age"
  shows "lock_requests (events (snd (wrapped c fname f a k s))) = lock_requests (events s) @ [lock_for c fname]"
proof -
  let ?s1 = "log (EGet key) s"
  let ?lk = "lock_for c fname"
  let ?s2 = "snd (acquire ?lk (log (ELock ?lk) ?s1))"
  have l2: "lock_requests (events ?s2) = lock_requests (events s) @ [?lk]"
    by (simp add: store_defs lock_requests_append)
  show ?thesis
    using assms l2
    by (auto simp add: wrapped_def Let_def store_get_def update_cache_locks call_locks
         release_def log_def acquire_def lock_requests_append
         split: prod.splits sum.splits bool.splits option.splits)
qed

section \<open>The registry\<close>

lemma decorate_cases:
  assumes "all_true d"
  shows "decorate c f d =
     (if derived_name c f \<in> dom d then (Inl CacheNameClashException, d)
      else (Inr (wrapped c (derived_name c f) f), d(derived_name c f \<mapsto> True)))"
  using assms by (auto simp add: decorate_def Let_def all_true_def split: option.splits)

lemma all_true_upd: "all_true d \<Longrightarrow> all_true (d(k \<mapsto> True))"
  by (auto simp add: all_true_def)

lemma decorate_snd:
  assumes "all_true d"
  shows "all_true (snd (decorate c f d))" "dom (snd (decorate c f d)) = insert (derived_name c f) (dom d)"
  using assms by (auto simp add: decorate_cases all_true_upd)

lemma decorate_each_nth:
  assumes "all_true d" "j < length apps"
  shows "fst (decorate_each apps d) ! j =
     (if derived_name (fst (apps ! j)) (snd (apps ! j))
           \<in> dom d \<union> (\<lambda>(c, f). derived_name c f) ` set (take j apps)
      then Inl CacheNameClashException
      else Inr (wrapped (fst (apps ! j)) (derived_name (fst (apps ! j)) (snd (apps ! j))) (snd (apps ! j))))"
  using assms
proof (induction apps arbitrary: d j)
  case Nil
  then show ?case by simp
next
  case (Cons x apps)
  obtain c f where x: "x = (c, f)" by (cases x)
  obtain r d1 where dec: "decorate c f d = (r, d1)" by (cases "decorate c f d")
  have d1: "all_true d1" "dom d1 = insert (derived_name c f) (dom d)"
    using decorate_snd[OF Cons.prems(1), of c f] dec by simp_all
  show ?case
  proof (cases j)
    case 0
    then show ?thesis using x dec decorate_cases[OF Cons.prems(1), of c f]
      by (auto split: prod.splits if_splits)
  next
    case (Suc i)
    then have i: "i < length apps" using Cons.prems(2) by simp
    have "fst (decorate_each (x # apps) d) ! j = fst (decorate_each apps d1) ! i"
      using x dec Suc by (simp split: prod.splits)
    then show ?thesis
      using Cons.IH[OF d1(1) i] d1(2) x Suc by auto
  qed
qed

lemma registered_props:
  assumes "all_true d"
  shows "distinct (registered apps (fst (decorate_each apps d)))
     \<and> set (registered apps (fst (decorate_each apps d))) \<inter> dom d = {}"
  using assms
proof (induction apps arbitrary: d)
  case Nil
  then show ?case by simp
next
  case (Cons x apps)
  obtain c f where x: "x = (c, f)" by (cases x)
  obtain r d1 where dec: "decorate c f d = (r, d1)" by (cases "decorate c f d")
  have d1: "all_true d1" "dom d1 = insert (derived_name c f) (dom d)"
    using decorate_snd[OF Cons.prems(1), of c f] dec by simp_all
  from Cons.IH[OF d1(1)] have IH: "distinct (registered apps (fst (decorate_each apps d1)))"
     "set (registered apps (fst (decorate_each apps d1))) \<inter> dom d1 = {}" by simp_all
  show ?case
    using IH d1(2) x dec decorate_cases[OF Cons.prems(1), of c f]
    by (auto split: prod.splits sum.splits if_splits)
qed

lemma all_true_init: "all_true decorated_init"
  by (simp add: all_true_def decorated_init_def)

section \<open>The cache key\<close>

text \<open>
  Claim C1: two calls that bind the same parameters to the same values get the same
  key, whatever the order of their keyword arguments. The code does not do this.
  \<^verbatim>\<open>baw(a=1, b=2)\<close> and \<^verbatim>\<open>baw(b=2, a=1)\<close> of \<^verbatim>\<open>test_kwargs_caching\<close> bind the
  same values, \<^verbatim>\<open>getcallargs\<close> returns them in the order of the keywords, and
  \<^verbatim>\<open>mangle\<close> encodes that dictionary unsorted: the two keys are the strings below.
\<close>

theorem mangle_follows_keyword_order:
  "getcallargs (f_spec baw) [] [(''a'', PInt 1), (''b'', PInt 2)]
     = Inr [(''a'', PInt 1), (''b'', PInt 2)]
   \<and> getcallargs (f_spec baw) [] [(''b'', PInt 2), (''a'', PInt 1)]
     = Inr [(''b'', PInt 2), (''a'', PInt 1)]
   \<and> mangle (derived_name kwargs_config baw) baw [] [(''a'', PInt 1), (''b'', PInt 2)]
     = Inr ''@test_kwargs_caching_test_cache_baw_{\"a\": 1, \"b\": 2}''
   \<and> mangle (derived_name kwargs_config baw) baw [] [(''b'', PInt 2), (''a'', PInt 1)]
     = Inr ''@test_kwargs_caching_test_cache_baw_{\"b\": 2, \"a\": 1}''"
  by (simp add: bind_defs dumps_defs config_defs baw_def baw_spec_def)

text \<open>The two calls bind the same mapping, and their keys differ.\<close>

theorem mangle_follows_keyword_order_witness:
  "map_of [(''a'', PInt 1), (''b'', PInt 2)] = map_of [(''b'', PInt 2), (''a'', PInt 1)]
   \<and> mangle (derived_name kwargs_config baw) baw [] [(''a'', PInt 1), (''b'', PInt 2)]
     \<noteq> mangle (derived_name kwargs_config baw) baw [] [(''b'', PInt 2), (''a'', PInt 1)]"
proof
  show "map_of [(''a'', PInt 1), (''b'', PInt 2)] = map_of [(''b'', PInt 2), (''a'', PInt 1)]"
    by (rule ext) simp
  show "mangle (derived_name kwargs_config baw) baw [] [(''a'', PInt 1), (''b'', PInt 2)]
     \<noteq> mangle (derived_name kwargs_config baw) baw [] [(''b'', PInt 2), (''a'', PInt 1)]"
    using mangle_follows_keyword_order by simp
qed

section \<open>The contended path\<close>

text \<open>
  Claim C2: a caller that cannot get the lock recomputes once the entry is as old as
  \<open>stale\<close>. The code does not do this. With \<^verbatim>\<open>bg_caching=True\<close>, \<^verbatim>\<open>expires=1\<close> and
  \<^verbatim>\<open>stale=2\<close>, an entry of age 10 and the lock held by another caller, the call returns
  the stored result: it asks for the lock once, and \<open>foo\<close> is not invoked.
\<close>

theorem contended_stale_entry_served:
  "wrapped stale_config (derived_name stale_config foo) foo [] [] stale_entry_state
     = (Inr (PStr ''old''),
        stale_entry_state\<lparr>events :=
          [EGet ''@test_stale_test_cache_foo_{}'',
           ELock \<lparr>lock_name = ''__lock_test_stale_test_cache_foo'', timeout = 1,
                  blocking_timeout = 1 / 10, thread_local = False\<rparr>,
           EAcquire ''__lock_test_stale_test_cache_foo'' False]\<rparr>)"
  by (simp add: wrapped_def bind_defs dumps_defs config_defs foo_def store_defs entry_defs
      state_defs lock_for_def)

theorem contended_stale_entry_served_witness:
  "bg_caching stale_config
   \<and> stale stale_config \<le> clock stale_entry_state - 990
   \<and> fst (wrapped stale_config (derived_name stale_config foo) foo [] [] stale_entry_state)
       = Inr (PStr ''old'')
   \<and> invocations (events (snd
       (wrapped stale_config (derived_name stale_config foo) foo [] [] stale_entry_state))) = 0"
  using contended_stale_entry_served by (simp add: config_defs state_defs)

section \<open>Entries that are not entries\<close>

text \<open>
  Claim C8: whatever bytes are stored under the key, the call treats an entry it
  cannot use as absent and raises nothing because of it. The code does this only for
  bytes that \<^verbatim>\<open>json.loads\<close> rejects. The bytes \<^verbatim>\<open>5\<close> are JSON: \<^verbatim>\<open>json.loads\<close>
  returns the integer 5, which is true and has no \<^verbatim>\<open>get\<close>, and the call raises
  \<^verbatim>\<open>AttributeError\<close> before it asks for the lock or invokes \<open>foo\<close>.
\<close>

theorem foreign_entry_raises:
  "wrapped caches_config (derived_name caches_config foo) foo [] [] foreign_entry_state
     = (Inl AttributeError,
        foreign_entry_state\<lparr>events := [EGet ''@test_cache_caches_test_cache_foo_{}'']\<rparr>)"
  by (simp add: wrapped_def bind_defs dumps_defs config_defs foo_def store_defs entry_defs
      state_defs lock_for_def)

theorem foreign_entry_raises_witness:
  "kv foreign_entry_state ''@test_cache_caches_test_cache_foo_{}'' = Some (Encoded (PInt 5))
   \<and> fst (wrapped caches_config (derived_name caches_config foo) foo [] [] foreign_entry_state)
       = Inl AttributeError"
  using foreign_entry_raises by (simp add: state_defs)

section \<open>The fresh path\<close>

text \<open>
  Claim C4 says that the calls made within the freshness window after one computation
  all return the same result. They do not when the result does not survive the store:
  \<^verbatim>\<open>pair()\<close> returns the tuple \<^verbatim>\<open>(1, 2)\<close> on the call that computes it and the
  list \<^verbatim>\<open>[1, 2]\<close> on the next call, which reads the entry; \<open>pair\<close> is invoked once.
\<close>

theorem same_result_counterexample:
  "fst (wrapped caches_config (derived_name caches_config pair) pair [] [] fresh_state)
     = Inr (PTuple [PInt 1, PInt 2])
   \<and> fst (call_at_each (wrapped caches_config (derived_name caches_config pair) pair [] [])
            [1001]
            (snd (wrapped caches_config (derived_name caches_config pair) pair [] []
                    fresh_state)))
     = [Inr (PList [PInt 1, PInt 2])]
   \<and> invocations (events (snd
         (call_at_each (wrapped caches_config (derived_name caches_config pair) pair [] [])
            [1001]
            (snd (wrapped caches_config (derived_name caches_config pair) pair [] []
                    fresh_state))))) = 1"
  by (simp add: wrapped_def update_cache_def bind_defs dumps_defs config_defs pair_def
      store_defs entry_defs state_defs lock_for_def)

text \<open>
  Claim C4, amended: when the store holds an entry for the key, a dictionary with a
  timestamp and a result, and its age is at most \<open>expires\<close>, the call returns the
  result of the entry and does nothing but read the store: the cached function is not
  invoked, no lock is asked for, nothing is written. Consequently, after a call that
  computed and stored a result (a call with no keyword argument named \<^verbatim>\<open>f\<close> or
  \<^verbatim>\<open>lock\<close>), the cached function has been invoked once in all however many calls
  follow while the age of that entry is at most \<open>expires\<close>; the computing call returns
  what the function returned, and each later call returns its copy as read from the
  store, which is the same value when it holds no tuple and its dictionaries have
  string keys, each once.
\<close>

theorem fresh_entry_served:
  assumes key: "mangle fname f a k = Inr key"
  shows "(get_fault s = None \<and> kv s key = Some (Encoded (PDict d))
            \<and> map_of d (KStr ''timestamp'') = Some (PInt t)
            \<and> map_of d (KStr ''result'') = Some r
            \<and> clock s - t \<le> expires c
          \<longrightarrow> wrapped c fname f a k s = (Inr r, s\<lparr>events := events s @ [EGet key]\<rparr>))
       \<and> (get_fault s0 = None
            \<and> age_of (clock s0) (loads_or_empty (kv s0 key)) = Inr age
            \<and> (\<not> truthy (loads_or_empty (kv s0 key)) \<or> expires c < age)
            \<and> ''__lock_'' @ fname \<notin> held s0
            \<and> still_valid c (clock s0) (loads_or_empty (kv s0 key)) = Inr False
            \<and> \<not> dict_has k ''f'' \<and> \<not> dict_has k ''lock''
            \<and> f_body f a k (clock s0, world s0) = (Inr v, t0, w)
            \<and> (\<forall>u \<in> set ts. u - t0 \<le> expires c)
          \<longrightarrow> (case wrapped c fname f a k s0 of
                (r1, s1) \<Rightarrow>
                  (case call_at_each (wrapped c fname f a k) ts s1 of
                     (rs, s2) \<Rightarrow>
                       r1 = Inr v \<and> rs = replicate (length ts) (Inr (json_copy v))
                       \<and> invocations (events s2) = invocations (events s0) + 1
                       \<and> writes (events s2) = writes (events s1)
                       \<and> lock_requests (events s2) = lock_requests (events s1)
                       \<and> kv s2 = kv s1)))
       \<and> (json_plain v \<longrightarrow> json_copy v = v)"
proof (intro conjI impI)
  assume "get_fault s = None \<and> kv s key = Some (Encoded (PDict d))
            \<and> map_of d (KStr ''timestamp'') = Some (PInt t)
            \<and> map_of d (KStr ''result'') = Some r
            \<and> clock s - t \<le> expires c"
  then show "wrapped c fname f a k s = (Inr r, s\<lparr>events := events s @ [EGet key]\<rparr>)"
    using fresh_hit[OF key, of s d t r c] by (simp add: log_def)
next
  assume h: "get_fault s0 = None
            \<and> age_of (clock s0) (loads_or_empty (kv s0 key)) = Inr age
            \<and> (\<not> truthy (loads_or_empty (kv s0 key)) \<or> expires c < age)
            \<and> ''__lock_'' @ fname \<notin> held s0
            \<and> still_valid c (clock s0) (loads_or_empty (kv s0 key)) = Inr False
            \<and> \<not> dict_has k ''f'' \<and> \<not> dict_has k ''lock''
            \<and> f_body f a k (clock s0, world s0) = (Inr v, t0, w)
            \<and> (\<forall>u \<in> set ts. u - t0 \<le> expires c)"
  define ent where "ent = [(KStr ''timestamp'', PInt t0), (KStr ''result'', json_copy v)]"
  define s1 where "s1 = s0\<lparr>kv := (kv s0)(key \<mapsto> Encoded (PDict ent)),
                    clock := t0, world := w,
                    events := events s0 @ [EGet key, ELock (lock_for c fname),
                       EAcquire (''__lock_'' @ fname) True, ECall a k,
                       ESet key (Encoded (PDict ent)),
                       ERelease (''__lock_'' @ fname)]\<rparr>"
  have first: "wrapped c fname f a k s0 = (Inr v, s1)"
    using sync_refresh[OF key, of s0 age c "Inr v" t0 w] h by (simp add: s1_def ent_def)
  have rest: "call_at_each (wrapped c fname f a k) ts s1 =
     (replicate (length ts) (Inr (json_copy v)),
      s1\<lparr>clock := last (clock s1 # ts),
         events := events s1 @ replicate (length ts) (EGet key)\<rparr>)"
    using fresh_calls[OF key, of s1 ent t0 "json_copy v" ts c] h by (simp add: s1_def ent_def)
  have gets: "writes (replicate n (EGet key)) = []" "lock_requests (replicate n (EGet key)) = []" for n
    by (induction n) simp_all
  have inv1: "invocations (events s1) = invocations (events s0) + 1"
    by (simp add: s1_def invocations_append)
  show "case wrapped c fname f a k s0 of
                (r1, s1) \<Rightarrow>
                  (case call_at_each (wrapped c fname f a k) ts s1 of
                     (rs, s2) \<Rightarrow>
                       r1 = Inr v \<and> rs = replicate (length ts) (Inr (json_copy v))
                       \<and> invocations (events s2) = invocations (events s0) + 1
                       \<and> writes (events s2) = writes (events s1)
                       \<and> lock_requests (events s2) = lock_requests (events s1)
                       \<and> kv s2 = kv s1)"
    using inv1 by (simp add: first rest invocations_append invocations_gets writes_append
        lock_requests_append gets)
next
  assume "json_plain v"
  then show "json_copy v = v" by (rule json_copy_plain)
qed

text \<open>
  An entry written at 996 is served at 1000 with \<open>expires = 5\<close>; \<open>foo\<close> computed at
  1000 and called again at 1001, 1003 and 1005 is invoked once, and its result, an
  integer, is the same in all four calls.
\<close>

theorem fresh_entry_served_witness:
  "wrapped caches_config (derived_name caches_config foo) foo [] [] fresh_entry_state
     = (Inr (PStr ''kept''),
        fresh_entry_state\<lparr>events := [EGet ''@test_cache_caches_test_cache_foo_{}'']\<rparr>)
   \<and> (case wrapped caches_config (derived_name caches_config foo) foo [] [] fresh_state of
        (r1, s1) \<Rightarrow>
          (case call_at_each (wrapped caches_config (derived_name caches_config foo) foo [] [])
                  [1001, 1003, 1005] s1 of
             (rs, s2) \<Rightarrow>
               r1 = Inr (PInt 1) \<and> rs = [Inr (PInt 1), Inr (PInt 1), Inr (PInt 1)]
               \<and> invocations (events s2) = 1))
   \<and> json_copy (PInt 1) = PInt 1"
proof -
  have n1: "derived_name caches_config foo = ''test_cache_caches_test_cache_foo''"
    by (simp add: config_defs foo_def)
  have k1: "mangle ''test_cache_caches_test_cache_foo'' foo [] []
      = Inr ''@test_cache_caches_test_cache_foo_{}''"
    by (simp add: bind_defs foo_def)
  note t = fresh_entry_served[OF k1]
  have e1: "expires caches_config = 5"
    by (simp add: config_defs)
  have a: "get_fault fresh_entry_state = None
      \<and> kv fresh_entry_state ''@test_cache_caches_test_cache_foo_{}''
          = Some (Encoded (PDict [(KStr ''timestamp'', PInt 996),
                                  (KStr ''result'', PStr ''kept'')]))
      \<and> map_of [(KStr ''timestamp'', PInt 996), (KStr ''result'', PStr ''kept'')]
            (KStr ''timestamp'') = Some (PInt 996)
      \<and> map_of [(KStr ''timestamp'', PInt 996), (KStr ''result'', PStr ''kept'')]
            (KStr ''result'') = Some (PStr ''kept'')
      \<and> clock fresh_entry_state - 996 \<le> expires caches_config"
    by (simp add: state_defs e1)
  have b: "get_fault fresh_state = None
      \<and> age_of (clock fresh_state)
           (loads_or_empty (kv fresh_state ''@test_cache_caches_test_cache_foo_{}'')) = Inr 1000
      \<and> (\<not> truthy (loads_or_empty (kv fresh_state ''@test_cache_caches_test_cache_foo_{}''))
           \<or> expires caches_config < 1000)
      \<and> ''__lock_'' @ ''test_cache_caches_test_cache_foo'' \<notin> held fresh_state
      \<and> still_valid caches_config (clock fresh_state)
           (loads_or_empty (kv fresh_state ''@test_cache_caches_test_cache_foo_{}'')) = Inr False
      \<and> \<not> dict_has [] ''f'' \<and> \<not> dict_has [] ''lock''
      \<and> f_body foo [] [] (clock fresh_state, world fresh_state) = (Inr (PInt 1), 1000, 1)
      \<and> (\<forall>u \<in> set [1001, 1003, 1005]. u - 1000 \<le> expires caches_config)"
    by (simp add: state_defs entry_defs foo_def e1 dict_has_def)
  have p: "json_plain (PInt 1)" by simp
  have ev: "events fresh_state = []" "events fresh_entry_state = []"
    by (simp_all add: state_defs)
  show ?thesis
    using t[THEN conjunct1, rule_format, OF a]
      t[THEN conjunct2, THEN conjunct1, rule_format, OF b]
      t[where v = "PInt 1", THEN conjunct2, THEN conjunct2, rule_format, OF p]
    unfolding n1 ev by (simp split: prod.splits)
qed

section \<open>The synchronous refresh\<close>

text \<open>
  Claim C5: on the path where the entry is missing or expired, the lock is acquired
  and the refresh is not left to a thread, the cached function is invoked, the entry is
  stored and the lock is released, whatever happens. The code does not do this for a
  call with a keyword argument named \<^verbatim>\<open>f\<close> or \<^verbatim>\<open>lock\<close>. For
  \<^verbatim>\<open>def g(f=1): return f\<close>, the call \<^verbatim>\<open>g(f=2)\<close> on an empty store acquires the
  lock and then raises \<^verbatim>\<open>TypeError\<close> where it calls \<^verbatim>\<open>update_cache\<close>, outside the
  \<^verbatim>\<open>try\<close> block: \<open>g\<close> is not invoked, nothing is stored, and the lock stays held.
\<close>

theorem refresh_keyword_clash:
  "wrapped caches_config (derived_name caches_config g) g [] [(''f'', PInt 2)] fresh_state
     = (Inl TypeError,
        fresh_state\<lparr>held := {''__lock_test_cache_caches_test_cache_g''},
          events :=
            [EGet ''@test_cache_caches_test_cache_g_{\"f\": 2}'',
             ELock \<lparr>lock_name = ''__lock_test_cache_caches_test_cache_g'', timeout = 5,
                    blocking_timeout = 1 / 10, thread_local = False\<rparr>,
             EAcquire ''__lock_test_cache_caches_test_cache_g'' True]\<rparr>)"
  by (simp add: wrapped_def update_cache_def bind_defs dumps_defs config_defs g_def g_spec_def
      store_defs entry_defs state_defs lock_for_def)

text \<open>
  The call binds, \<open>g\<close> would have returned 2, and after the call the lock is held with
  no invocation and no write.
\<close>

theorem refresh_keyword_clash_witness:
  "mangle (derived_name caches_config g) g [] [(''f'', PInt 2)]
     = Inr ''@test_cache_caches_test_cache_g_{\"f\": 2}''
   \<and> fst (f_body g [] [(''f'', PInt 2)] (clock fresh_state, world fresh_state)) = Inr (PInt 2)
   \<and> fst (wrapped caches_config (derived_name caches_config g) g [] [(''f'', PInt 2)]
            fresh_state) = Inl TypeError
   \<and> ''__lock_test_cache_caches_test_cache_g''
        \<in> held (snd (wrapped caches_config (derived_name caches_config g) g []
                        [(''f'', PInt 2)] fresh_state))
   \<and> invocations (events (snd (wrapped caches_config (derived_name caches_config g) g []
                        [(''f'', PInt 2)] fresh_state))) = 0
   \<and> writes (events (snd (wrapped caches_config (derived_name caches_config g) g []
                        [(''f'', PInt 2)] fresh_state))) = []"
proof -
  have k: "mangle (derived_name caches_config g) g [] [(''f'', PInt 2)]
     = Inr ''@test_cache_caches_test_cache_g_{\"f\": 2}''"
    by (simp add: bind_defs dumps_defs config_defs g_def g_spec_def)
  have b: "fst (f_body g [] [(''f'', PInt 2)] (clock fresh_state, world fresh_state))
     = Inr (PInt 2)"
    by (simp add: g_def g_spec_def getcallargs_def dict_has_def state_defs)
  show ?thesis
    using refresh_keyword_clash k b by simp
qed

section \<open>The bypass\<close>

text \<open>
  Claim C6: when the entry is missing or expired, the lock is held by another caller,
  and either \<open>bg_caching\<close> is off or there is no entry, the cached function is invoked
  and its outcome is the outcome of the call; the store is as it was, the lock was
  asked for once, and nothing was written.
\<close>

theorem contended_bypass:
  assumes "mangle fname f a k = Inr key"
    and "get_fault s = None"
    and "age_of (clock s) (loads_or_empty (kv s key)) = Inr age"
    and "\<not> truthy (loads_or_empty (kv s key)) \<or> expires c < age"
    and "''__lock_'' @ fname \<in> held s"
    and "\<not> bg_caching c \<or> \<not> truthy (loads_or_empty (kv s key))"
    and "f_body f a k (clock s, world s) = (r, t, w)"
  shows "wrapped c fname f a k s =
           (r, s\<lparr>clock := t, world := w,
                 events := events s @
                   [EGet key, ELock (lock_for c fname),
                    EAcquire (''__lock_'' @ fname) False, ECall a k]\<rparr>)
         \<and> kv (snd (wrapped c fname f a k s)) = kv s
         \<and> held (snd (wrapped c fname f a k s)) = held s
         \<and> writes (events (snd (wrapped c fname f a k s))) = writes (events s)
         \<and> lock_requests (events (snd (wrapped c fname f a k s)))
             = lock_requests (events s) @ [lock_for c fname]"
  using contended_live[OF assms] by (simp add: writes_append lock_requests_append)

text \<open>
  \<open>foo\<close> without \<open>bg_caching\<close> and \<open>foo\<close> with \<open>bg_caching\<close>, each on an empty
  store whose lock is held.
\<close>

theorem contended_bypass_witness:
  "wrapped caches_config (derived_name caches_config foo) foo [] [] contended_state =
     (Inr (PInt 1),
      contended_state\<lparr>world := 1,
        events :=
          [EGet ''@test_cache_caches_test_cache_foo_{}'',
           ELock (lock_for caches_config ''test_cache_caches_test_cache_foo''),
           EAcquire ''__lock_test_cache_caches_test_cache_foo'' False, ECall [] []]\<rparr>)
   \<and> kv (snd (wrapped caches_config (derived_name caches_config foo) foo [] [] contended_state))
       = Map.empty
   \<and> wrapped stale_config (derived_name stale_config foo) foo [] []
        (stale_entry_state\<lparr>kv := Map.empty\<rparr>) =
     (Inr (PInt 1),
      stale_entry_state\<lparr>kv := Map.empty, world := 1,
        events :=
          [EGet ''@test_stale_test_cache_foo_{}'',
           ELock (lock_for stale_config ''test_stale_test_cache_foo''),
           EAcquire ''__lock_test_stale_test_cache_foo'' False, ECall [] []]\<rparr>)"
proof -
  have n1: "derived_name caches_config foo = ''test_cache_caches_test_cache_foo''"
    by (simp add: config_defs foo_def)
  have k1: "mangle ''test_cache_caches_test_cache_foo'' foo [] []
      = Inr ''@test_cache_caches_test_cache_foo_{}''"
    by (simp add: bind_defs foo_def)
  have b1: "f_body foo [] [] (clock contended_state, world contended_state)
      = (Inr (PInt 1), 1000, 1)"
    by (simp add: foo_def state_defs)
  have h1: "get_fault contended_state = None"
    "age_of (clock contended_state)
       (loads_or_empty (kv contended_state ''@test_cache_caches_test_cache_foo_{}'')) = Inr 1000"
    "\<not> truthy (loads_or_empty (kv contended_state ''@test_cache_caches_test_cache_foo_{}''))
       \<or> expires caches_config < 1000"
    "''__lock_'' @ ''test_cache_caches_test_cache_foo'' \<in> held contended_state"
    "\<not> bg_caching caches_config
       \<or> \<not> truthy (loads_or_empty (kv contended_state ''@test_cache_caches_test_cache_foo_{}''))"
    by (simp_all add: state_defs entry_defs config_defs)
  note t1 = contended_bypass[OF k1 h1 b1]
  let ?s = "stale_entry_state\<lparr>kv := Map.empty\<rparr>"
  have n2: "derived_name stale_config foo = ''test_stale_test_cache_foo''"
    by (simp add: config_defs foo_def)
  have k2: "mangle ''test_stale_test_cache_foo'' foo [] [] = Inr ''@test_stale_test_cache_foo_{}''"
    by (simp add: bind_defs foo_def)
  have b2: "f_body foo [] [] (clock ?s, world ?s) = (Inr (PInt 1), 1000, 1)"
    by (simp add: foo_def state_defs)
  have h2: "get_fault ?s = None"
    "age_of (clock ?s) (loads_or_empty (kv ?s ''@test_stale_test_cache_foo_{}'')) = Inr 1000"
    "\<not> truthy (loads_or_empty (kv ?s ''@test_stale_test_cache_foo_{}''))
       \<or> expires stale_config < 1000"
    "''__lock_'' @ ''test_stale_test_cache_foo'' \<in> held ?s"
    "\<not> bg_caching stale_config
       \<or> \<not> truthy (loads_or_empty (kv ?s ''@test_stale_test_cache_foo_{}''))"
    by (simp_all add: state_defs entry_defs config_defs)
  note t2 = contended_bypass[OF k2 h2 b2]
  show ?thesis
    using t1 t2 by (simp add: n1 n2 state_defs)
qed

section \<open>The lock\<close>

text \<open>
  Claim C3 says that the lock of a call is named after its cache key, so that calls
  with different arguments use different locks. It is not:
  \<^verbatim>\<open>baw(1)\<close> and \<^verbatim>\<open>baw(2)\<close> have different keys and ask for the same lock.
\<close>

theorem lock_per_key_counterexample:
  "mangle (derived_name kwargs_config baw) baw [PInt 1] []
     = Inr ''@test_kwargs_caching_test_cache_baw_{\"a\": 1, \"b\": 1}''
   \<and> mangle (derived_name kwargs_config baw) baw [PInt 2] []
     = Inr ''@test_kwargs_caching_test_cache_baw_{\"a\": 2, \"b\": 1}''
   \<and> lock_requests (events (snd
         (wrapped kwargs_config (derived_name kwargs_config baw) baw [PInt 1] [] fresh_state)))
     = [\<lparr>lock_name = ''__lock_test_kwargs_caching_test_cache_baw'', timeout = 5,
         blocking_timeout = 1 / 10, thread_local = False\<rparr>]
   \<and> lock_requests (events (snd
         (wrapped kwargs_config (derived_name kwargs_config baw) baw [PInt 2] [] fresh_state)))
     = [\<lparr>lock_name = ''__lock_test_kwargs_caching_test_cache_baw'', timeout = 5,
         blocking_timeout = 1 / 10, thread_local = False\<rparr>]"
  by (simp add: wrapped_def update_cache_def bind_defs dumps_defs config_defs baw_def
      baw_spec_def store_defs entry_defs state_defs lock_for_def)

text \<open>
  Claim C3, amended: a call that finds the entry missing or expired asks for exactly
  one lock. It is named \<^verbatim>\<open>__lock_\<close> followed by the derived name of the cached
  function, whatever the arguments of the call; its time to live is \<open>expires\<close>, and
  acquiring it blocks for at most a tenth of a second.
\<close>

theorem lock_named_after_function:
  assumes "mangle fname f a k = Inr key"
    and "get_fault s = None"
    and "age_of (clock s) (loads_or_empty (kv s key)) = Inr age"
    and "\<not> truthy (loads_or_empty (kv s key)) \<or> expires c < age"
  shows "lock_requests (events (snd (wrapped c fname f a k s)))
           = lock_requests (events s) @
             [\<lparr>lock_name = ''__lock_'' @ fname, timeout = expires c,
               blocking_timeout = 1 / 10, thread_local = False\<rparr>]"
  using reaches_lock[OF assms] by (simp add: lock_for_def)

theorem lock_named_after_function_witness:
  "lock_requests (events (snd
      (wrapped caches_config (derived_name caches_config foo) foo [] [] fresh_state)))
     = [\<lparr>lock_name = ''__lock_test_cache_caches_test_cache_foo'', timeout = 5,
         blocking_timeout = 1 / 10, thread_local = False\<rparr>]"
proof -
  have n1: "derived_name caches_config foo = ''test_cache_caches_test_cache_foo''"
    by (simp add: config_defs foo_def)
  have k1: "mangle ''test_cache_caches_test_cache_foo'' foo [] []
      = Inr ''@test_cache_caches_test_cache_foo_{}''"
    by (simp add: bind_defs foo_def)
  have h1: "get_fault fresh_state = None"
    "age_of (clock fresh_state)
       (loads_or_empty (kv fresh_state ''@test_cache_caches_test_cache_foo_{}'')) = Inr 1000"
    "\<not> truthy (loads_or_empty (kv fresh_state ''@test_cache_caches_test_cache_foo_{}''))
       \<or> expires caches_config < 1000"
    by (simp_all add: state_defs entry_defs)
  have e1: "expires caches_config = 5"
    by (simp add: config_defs)
  show ?thesis
    using lock_named_after_function[OF k1 h1] unfolding n1 e1 by (simp add: state_defs)
qed

section \<open>A store that fails\<close>

text \<open>
  Claim C7 says that a \<^verbatim>\<open>get\<close> that raises is treated as a miss. It is not: on a
  store that holds nothing and whose \<^verbatim>\<open>get\<close> raises, the call raises the same
  exception, where the same call on a store that holds nothing and works returns what
  \<open>foo\<close> computes.
\<close>

theorem store_failure_counterexample:
  "wrapped caches_config (derived_name caches_config foo) foo [] [] unreachable_state
     = (Inl (Exception ''ConnectionError''),
        unreachable_state\<lparr>events := [EGet ''@test_cache_caches_test_cache_foo_{}'']\<rparr>)
   \<and> kv unreachable_state = kv fresh_state
   \<and> fst (wrapped caches_config (derived_name caches_config foo) foo [] [] fresh_state)
     = Inr (PInt 1)"
  by (simp add: wrapped_def update_cache_def bind_defs dumps_defs config_defs foo_def
      store_defs entry_defs state_defs lock_for_def)

text \<open>
  Claim C7, amended: the exception of a \<^verbatim>\<open>get\<close> that raises reaches the caller as
  it is, and nothing else happens. A \<^verbatim>\<open>get\<close> that finds nothing, or bytes that
  \<^verbatim>\<open>json.loads\<close> rejects, is a miss: for a call with no keyword argument named
  \<^verbatim>\<open>f\<close> or \<^verbatim>\<open>lock\<close>, the cached function is invoked once and its outcome is the
  outcome of the call.
\<close>

theorem store_failure_propagates:
  assumes "mangle fname f a k = Inr key"
  shows "(get_fault s = Some e \<longrightarrow>
            wrapped c fname f a k s = (Inl e, s\<lparr>events := events s @ [EGet key]\<rparr>))
       \<and> (get_fault s = None \<and> (kv s key = None \<or> kv s key = Some Undecodable)
            \<and> \<not> dict_has k ''f'' \<and> \<not> dict_has k ''lock'' \<longrightarrow>
            fst (wrapped c fname f a k s) = fst (f_body f a k (clock s, world s))
            \<and> invocations (events (snd (wrapped c fname f a k s)))
                = invocations (events s) + 1)"
proof (intro conjI impI)
  assume "get_fault s = Some e"
  then show "wrapped c fname f a k s = (Inl e, s\<lparr>events := events s @ [EGet key]\<rparr>)"
    using assms by (simp add: wrapped_def store_get_def log_def)
next
  assume h: "get_fault s = None \<and> (kv s key = None \<or> kv s key = Some Undecodable)
            \<and> \<not> dict_has k ''f'' \<and> \<not> dict_has k ''lock''"
  then have miss: "loads_or_empty (kv s key) = PDict []"
    by (auto simp add: loads_or_empty_def)
  obtain r t w where body: "f_body f a k (clock s, world s) = (r, t, w)"
    by (cases "f_body f a k (clock s, world s)")
  have age: "age_of (clock s) (loads_or_empty (kv s key)) = Inr (clock s)"
    "\<not> truthy (loads_or_empty (kv s key)) \<or> expires c < clock s"
    "still_valid c (clock s) (loads_or_empty (kv s key)) = Inr False"
    "\<not> bg_caching c \<or> \<not> truthy (loads_or_empty (kv s key))"
    by (simp_all add: miss age_of_def still_valid_def)
  have g: "get_fault s = None" using h by simp
  have nf: "\<not> dict_has k ''f''" and nl: "\<not> dict_has k ''lock''" using h by simp_all
  have both: "fst (wrapped c fname f a k s) = r
      \<and> invocations (events (snd (wrapped c fname f a k s))) = invocations (events s) + 1"
  proof (cases "''__lock_'' @ fname \<in> held s")
    case True
    show ?thesis
      using contended_live[OF assms g age(1) age(2) True age(4) body]
      by (simp add: invocations_append)
  next
    case False
    show ?thesis
      using sync_refresh[OF assms g age(1) age(2) False age(3) nf nl body]
      by (cases r) (simp_all add: invocations_append)
  qed
  show "fst (wrapped c fname f a k s) = fst (f_body f a k (clock s, world s))"
    using both body by simp
  show "invocations (events (snd (wrapped c fname f a k s))) = invocations (events s) + 1"
    using both by simp
qed

theorem store_failure_propagates_witness:
  "wrapped caches_config (derived_name caches_config foo) foo [] [] unreachable_state
     = (Inl (Exception ''ConnectionError''),
        unreachable_state\<lparr>events := [EGet ''@test_cache_caches_test_cache_foo_{}'']\<rparr>)
   \<and> fst (wrapped caches_config (derived_name caches_config foo) foo [] [] fresh_state)
       = Inr (PInt 1)
   \<and> invocations (events (snd
        (wrapped caches_config (derived_name caches_config foo) foo [] [] fresh_state))) = 1
   \<and> fst (wrapped caches_config (derived_name caches_config foo) foo [] []
        (fresh_state\<lparr>kv := [''@test_cache_caches_test_cache_foo_{}'' \<mapsto> Undecodable]\<rparr>))
       = Inr (PInt 1)"
proof -
  have n1: "derived_name caches_config foo = ''test_cache_caches_test_cache_foo''"
    by (simp add: config_defs foo_def)
  have k1: "mangle ''test_cache_caches_test_cache_foo'' foo [] []
      = Inr ''@test_cache_caches_test_cache_foo_{}''"
    by (simp add: bind_defs foo_def)
  note t = store_failure_propagates[OF k1]
  have a: "get_fault unreachable_state = Some (Exception ''ConnectionError'')"
    by (simp add: state_defs)
  have b: "get_fault fresh_state = None
      \<and> (kv fresh_state ''@test_cache_caches_test_cache_foo_{}'' = None
         \<or> kv fresh_state ''@test_cache_caches_test_cache_foo_{}'' = Some Undecodable)
      \<and> \<not> dict_has [] ''f'' \<and> \<not> dict_has [] ''lock''"
    by (simp add: state_defs dict_has_def)
  let ?u = "fresh_state\<lparr>kv := [''@test_cache_caches_test_cache_foo_{}'' \<mapsto> Undecodable]\<rparr>"
  have c: "get_fault ?u = None
      \<and> (kv ?u ''@test_cache_caches_test_cache_foo_{}'' = None
         \<or> kv ?u ''@test_cache_caches_test_cache_foo_{}'' = Some Undecodable)
      \<and> \<not> dict_has [] ''f'' \<and> \<not> dict_has [] ''lock''"
    by (simp add: state_defs dict_has_def)
  have b1: "fst (f_body foo [] [] (clock fresh_state, world fresh_state)) = Inr (PInt 1)"
    "fst (f_body foo [] [] (clock ?u, world ?u)) = Inr (PInt 1)"
    by (simp_all add: foo_def state_defs)
  have e: "events unreachable_state = []" "events fresh_state = []"
    by (simp_all add: state_defs)
  show ?thesis
    using t[of unreachable_state "Exception ''ConnectionError''" caches_config,
            THEN conjunct1, rule_format, OF a]
      t[of fresh_state _ caches_config, THEN conjunct2, rule_format, OF b]
      t[of ?u _ caches_config, THEN conjunct2, rule_format, OF c]
    unfolding n1 b1 e by simp
qed

section \<open>Registration\<close>

text \<open>
  Claim C9: of two applications of the decorator with the same derived name, the
  later one raises \<^verbatim>\<open>CacheNameClashException\<close> when it is applied, and returns no
  wrapped function that could be called; the names of the applications that did return
  one are all different. The applications are those of a program from the start, when
  \<^verbatim>\<open>decorated\<close> is empty.
\<close>

theorem name_clash_rejected:
  "(\<forall>i j. i < j \<and> j < length apps
        \<and> derived_name (fst (apps ! i)) (snd (apps ! i)) = derived_name (fst (apps ! j)) (snd (apps ! j))
      \<longrightarrow> fst (decorate_each apps decorated_init) ! j = Inl CacheNameClashException)
   \<and> distinct (registered apps (fst (decorate_each apps decorated_init)))"
proof (intro conjI allI impI)
  fix i j
  assume h: "i < j \<and> j < length apps
        \<and> derived_name (fst (apps ! i)) (snd (apps ! i)) = derived_name (fst (apps ! j)) (snd (apps ! j))"
  then have "apps ! i \<in> set (take j apps)"
    by (metis in_set_conv_nth length_take min.absorb2 nth_take less_imp_le_nat)
  then have "derived_name (fst (apps ! j)) (snd (apps ! j)) \<in> (\<lambda>(c, f). derived_name c f) ` set (take j apps)"
    using h by (metis (mono_tags, lifting) case_prod_beta image_eqI)
  then show "fst (decorate_each apps decorated_init) ! j = Inl CacheNameClashException"
    using decorate_each_nth[OF all_true_init, of j apps] h by simp
next
  show "distinct (registered apps (fst (decorate_each apps decorated_init)))"
    using registered_props[OF all_true_init] by blast
qed

text \<open>\<open>foo\<close>, \<open>baw\<close> and \<open>foo\<close> again, under one prefix.\<close>

theorem name_clash_rejected_witness:
  "fst (decorate_each [(caches_config, foo), (caches_config, baw), (caches_config, foo)]
          decorated_init) ! 2 = Inl CacheNameClashException
   \<and> registered [(caches_config, foo), (caches_config, baw), (caches_config, foo)]
        (fst (decorate_each [(caches_config, foo), (caches_config, baw), (caches_config, foo)]
                decorated_init))
       = [''test_cache_caches_test_cache_foo'', ''test_cache_caches_test_cache_baw'']"
proof -
  let ?apps = "[(caches_config, foo), (caches_config, baw), (caches_config, foo)]"
  have h: "(0::nat) < 2 \<and> 2 < length ?apps
      \<and> derived_name (fst (?apps ! 0)) (snd (?apps ! 0))
        = derived_name (fst (?apps ! 2)) (snd (?apps ! 2))"
    by simp
  have clash: "fst (decorate_each ?apps decorated_init) ! 2 = Inl CacheNameClashException"
    using name_clash_rejected[of ?apps, THEN conjunct1, rule_format, OF h] .
  have reg: "registered ?apps (fst (decorate_each ?apps decorated_init))
       = [''test_cache_caches_test_cache_foo'', ''test_cache_caches_test_cache_baw'']"
  proof -
    have n: "derived_name caches_config foo = ''test_cache_caches_test_cache_foo''"
      "derived_name caches_config baw = ''test_cache_caches_test_cache_baw''"
      by (simp_all add: config_defs foo_def baw_def)
    show ?thesis
      by (simp add: decorate_def decorated_init_def Let_def n)
  qed
  show ?thesis using clash reg by simp
qed

section \<open>The staleness bound\<close>

text \<open>
  Claim C10 says that a caller cannot configure a staleness bound of zero. With
  \<^verbatim>\<open>expires=0\<close> the bound \<open>2 * expires\<close> is zero.
\<close>

theorem zero_stale_counterexample:
  "stale (cache [] (Some 0) None None (Some 0)) = 0"
  by (simp add: cache_def resolve_stale_def)

text \<open>
  Claim C10, amended: a \<open>stale\<close> argument that is \<^verbatim>\<open>None\<close> or zero is replaced by
  \<open>2 * expires\<close>, and any other is kept; the bound is zero only when \<open>expires\<close> is.
\<close>

theorem falsy_stale_replaced:
  "(stale_arg = None \<or> stale_arg = Some 0 \<longrightarrow>
      stale (cache p e pa ba stale_arg) = 2 * expires (cache p e pa ba stale_arg))
   \<and> (\<forall>n. stale_arg = Some n \<and> n \<noteq> 0 \<longrightarrow> stale (cache p e pa ba stale_arg) = n)
   \<and> (expires (cache p e pa ba stale_arg) \<noteq> 0 \<longrightarrow> stale (cache p e pa ba stale_arg) \<noteq> 0)"
  by (auto simp add: cache_def resolve_stale_def Let_def split: option.splits)

theorem falsy_stale_replaced_witness:
  "stale (cache [] (Some 3) None None (Some 0)) = 6
   \<and> stale (cache [] None None None None) = 10
   \<and> stale (cache [] (Some 3) None None (Some 4)) = 4"
proof -
  have e: "expires (cache [] (Some 3) None None x) = 3" "expires (cache [] None None None x) = 5" for x
    by (simp_all add: cache_def)
  have a: "Some (0::int) = None \<or> Some (0::int) = Some 0" by simp
  have b: "(None :: int option) = None \<or> (None :: int option) = Some 0" by simp
  have c: "Some (4::int) = Some 4 \<and> (4::int) \<noteq> 0" by simp
  show ?thesis
    using falsy_stale_replaced[of "Some 0" "[]" "Some 3" None None, THEN conjunct1, rule_format, OF a]
      falsy_stale_replaced[of None "[]" None None None, THEN conjunct1, rule_format, OF b]
      falsy_stale_replaced[of "Some 4" "[]" "Some 3" None None, THEN conjunct2, THEN conjunct1, rule_format, OF c]
    unfolding e by simp
qed

end
